theory Spec2Isabelle
  imports Main "HOL-Library.Word"
begin

section \<open>Data model\<close>

text \<open>
  URIs are Go strings, IDs are \<open>uint64\<close>. A \<open>*Session\<close> is used by the broker only as a
  routing target and as a map key, compared by pointer identity: it is modelled by its
  address.
\<close>

type_synonym URI = string
type_synonym ID = "64 word"
type_synonym Session = nat

text \<open>
  Option maps are \<open>map[string]interface{}\<close>. The dynamic values that reach the broker
  are those a decoded WAMP dictionary can hold: nil, a bool, a number, a string, a list
  (\<open>[]interface{}\<close>) or a dictionary (\<open>map[string]interface{}\<close>). Integers stand for the
  numeric dynamic types; floating point values are left out of the model.
\<close>

datatype val =
    VNil
  | VBool bool
  | VInt int
  | VString string
  | VList "val list"
  | VMap "(string \<times> val) list"

type_synonym dict = "string \<rightharpoonup> val"

datatype kind = KNil | KBool | KInt | KString | KSlice | KMap

fun kind_of :: "val \<Rightarrow> kind" where
  "kind_of VNil = KNil"
| "kind_of (VBool b) = KBool"
| "kind_of (VInt i) = KInt"
| "kind_of (VString s) = KString"
| "kind_of (VList xs) = KSlice"
| "kind_of (VMap kvs) = KMap"

definition comparable :: "kind \<Rightarrow> bool" where
  "comparable k = (k \<noteq> KSlice \<and> k \<noteq> KMap)"

text \<open>
  Go's \<open>a != b\<close> on two interface values: values of different dynamic types are unequal;
  values of one comparable dynamic type are compared; two values of one dynamic type that
  is not comparable (a slice, a map) make the comparison panic at run time. \<open>None\<close> is
  the panic.
\<close>

definition go_neq :: "val \<Rightarrow> val \<Rightarrow> bool option" where
  "go_neq a b =
     (if kind_of a = kind_of b \<and> \<not> comparable (kind_of a) then None
      else Some (a \<noteq> b))"

text \<open>
  Modelled from the spec: the message kinds of the WAMP message definitions, which are
  not part of the two source files. \<open>msg.MessageType()\<close> of an \<open>Unsubscribe\<close> is
  \<open>UNSUBSCRIBE\<close>.
\<close>

datatype message_type =
    HELLO | WELCOME | ABORT | GOODBYE | ERROR
  | PUBLISH | PUBLISHED | SUBSCRIBE | SUBSCRIBED
  | UNSUBSCRIBE | UNSUBSCRIBED | EVENT

text \<open>
  Modelled from the spec: the message records, declared outside the two source files.
  The fields are those the source reads or writes.
\<close>

record Publish_msg =
  pub_Request :: ID
  pub_Options :: dict
  pub_Topic :: URI
  pub_Arguments :: "val list"
  pub_ArgumentsKw :: dict

record Subscribe_msg =
  sub_Request :: ID
  sub_Options :: dict
  sub_Topic :: URI

record Unsubscribe_msg =
  unsub_Request :: ID
  unsub_Subscription :: ID

record Event =
  Publication :: ID
  Subscription :: ID
  Details :: dict
  Arguments :: "val list"
  ArgumentsKw :: dict

record Welcome =
  Id :: ID
  welcome_Details :: dict

text \<open>The messages the router and the broker send or receive.\<close>

datatype message =
    Hello URI dict
  | Welcome_m Welcome
  | Abort URI dict
  | Published ID ID
  | Subscribed ID ID
  | Unsubscribed ID
  | Event_m Event
  | Error message_type ID URI
  | Other message_type

text \<open>
  Modelled from the spec: the constant \<open>ErrNoSuchSubscription\<close>, declared outside the two
  source files; its value is the well-known URI of the specification.
\<close>

definition ErrNoSuchSubscription :: URI where
  "ErrNoSuchSubscription = ''wamp.error.no_such_subscription''"

text \<open>
  Modelled from the spec: the constant \<open>ErrSystemShutdown\<close>, declared outside the two
  source files.
\<close>

definition ErrSystemShutdown :: URI where
  "ErrSystemShutdown = ''wamp.error.system_shutdown''"

text \<open>
  Modelled from the spec: the constant \<open>ErrNoSuchRealm\<close>, declared outside the two source
  files.
\<close>

definition ErrNoSuchRealm :: URI where
  "ErrNoSuchRealm = ''wamp.error.no_such_realm''"

text \<open>
  Modelled from the spec: the constant \<open>ErrAuthorizationFailed\<close>, declared outside the two
  source files.
\<close>

definition ErrAuthorizationFailed :: URI where
  "ErrAuthorizationFailed = ''wamp.error.authorization_failed''"

section \<open>The broker\<close>

record defaultBroker =
  options :: "URI \<rightharpoonup> (ID \<rightharpoonup> dict)"
  routes :: "URI \<rightharpoonup> (ID \<rightharpoonup> Session)"
  subscriptions :: "ID \<rightharpoonup> URI"
  sessions :: "Session \<rightharpoonup> ID set"

definition NewDefaultBroker :: defaultBroker where
  "NewDefaultBroker =
     \<lparr>options = Map.empty, routes = Map.empty,
      subscriptions = Map.empty, sessions = Map.empty\<rparr>"

text \<open>
  A \<open>Send\<close> on a session is an effect: every operation returns, next to the new broker
  state, the list of sends it made, in the order it made them. The result of a send is
  discarded by the broker.
\<close>

type_synonym send = "Session \<times> message"

text \<open>
  Go ranges over a map in an order the run time picks. Where the source ranges over a
  map, the model takes the order as an argument: a list that enumerates the keys.
\<close>

definition enumerates :: "'a list \<Rightarrow> 'a set \<Rightarrow> bool" where
  "enumerates xs S = (distinct xs \<and> set xs = S)"

subsection \<open>Subscribe\<close>

text \<open>\<open>sid\<close> is the source's \<open>id\<close>, the value \<open>NewID()\<close> returned.\<close>

definition Subscribe ::
  "defaultBroker \<Rightarrow> Session \<Rightarrow> Subscribe_msg \<Rightarrow> ID \<Rightarrow> defaultBroker \<times> send list" where
  "Subscribe br sub msg sid =
     (let route = (case routes br (sub_Topic msg) of None \<Rightarrow> Map.empty | Some r \<Rightarrow> r);
          br1 = br\<lparr>routes := (routes br)(sub_Topic msg \<mapsto> route(sid \<mapsto> sub))\<rparr>;
          option = (case options br1 (sub_Topic msg) of None \<Rightarrow> Map.empty | Some m \<Rightarrow> m);
          br2 = br1\<lparr>options := (options br1)(sub_Topic msg \<mapsto> option(sid \<mapsto> sub_Options msg))\<rparr>;
          subs = (case sessions br2 sub of None \<Rightarrow> {} | Some s \<Rightarrow> s);
          br3 = br2\<lparr>sessions := (sessions br2)(sub \<mapsto> insert sid subs)\<rparr>;
          br4 = br3\<lparr>subscriptions := (subscriptions br3)(sid \<mapsto> sub_Topic msg)\<rparr>
      in (br4, [(sub, Subscribed (sub_Request msg) sid)]))"

subsection \<open>Unsubscribe\<close>

text \<open>
  The three clean-up blocks of \<open>Unsubscribe\<close>; the first two occur again, without the
  log lines, in \<open>RemoveSubscriber\<close>. A log line does not change the broker.
\<close>

definition clean_up_routes :: "defaultBroker \<Rightarrow> URI \<Rightarrow> ID \<Rightarrow> defaultBroker" where
  "clean_up_routes br topic sid =
     (case routes br topic of
        None \<Rightarrow> br
      | Some r \<Rightarrow>
          (case r sid of
             None \<Rightarrow> br
           | Some s \<Rightarrow>
               (let r' = r(sid := None)
                in if dom r' = {} then br\<lparr>routes := (routes br)(topic := None)\<rparr>
                   else br\<lparr>routes := (routes br)(topic \<mapsto> r')\<rparr>)))"

definition clean_up_options :: "defaultBroker \<Rightarrow> URI \<Rightarrow> ID \<Rightarrow> defaultBroker" where
  "clean_up_options br topic sid =
     (case options br topic of
        None \<Rightarrow> br
      | Some m \<Rightarrow>
          (case m sid of
             None \<Rightarrow> br
           | Some d \<Rightarrow>
               (let m' = m(sid := None)
                in if dom m' = {} then br\<lparr>options := (options br)(topic := None)\<rparr>
                   else br\<lparr>options := (options br)(topic \<mapsto> m')\<rparr>)))"

definition clean_up_sender :: "defaultBroker \<Rightarrow> Session \<Rightarrow> ID \<Rightarrow> defaultBroker" where
  "clean_up_sender br sub sid =
     (case sessions br sub of
        None \<Rightarrow> br
      | Some s \<Rightarrow>
          (if sid \<notin> s then br
           else (let s' = s - {sid}
                 in if s' = {} then br\<lparr>sessions := (sessions br)(sub := None)\<rparr>
                    else br\<lparr>sessions := (sessions br)(sub \<mapsto> s')\<rparr>)))"

definition Unsubscribe ::
  "defaultBroker \<Rightarrow> Session \<Rightarrow> Unsubscribe_msg \<Rightarrow> defaultBroker \<times> send list" where
  "Unsubscribe br sub msg =
     (case subscriptions br (unsub_Subscription msg) of
        None \<Rightarrow> (br, [(sub, Error UNSUBSCRIBE (unsub_Request msg) ErrNoSuchSubscription)])
      | Some topic \<Rightarrow>
          (let br1 = br\<lparr>subscriptions := (subscriptions br)(unsub_Subscription msg := None)\<rparr>;
               br2 = clean_up_routes br1 topic (unsub_Subscription msg);
               br3 = clean_up_options br2 topic (unsub_Subscription msg);
               br4 = clean_up_sender br3 sub (unsub_Subscription msg)
           in (br4, [(sub, Unsubscribed (unsub_Request msg))])))"

subsection \<open>RemoveSubscriber\<close>

text \<open>
  The loop ranges over \<open>br.sessions[sub]\<close>, which it does not change; \<open>ids\<close> is the
  order of the range.
\<close>

fun RemoveSubscriber_loop :: "defaultBroker \<Rightarrow> ID list \<Rightarrow> defaultBroker" where
  "RemoveSubscriber_loop br [] = br"
| "RemoveSubscriber_loop br (sid # ids) =
     (case subscriptions br sid of
        None \<Rightarrow> RemoveSubscriber_loop br ids
      | Some topic \<Rightarrow>
          (let br1 = br\<lparr>subscriptions := (subscriptions br)(sid := None)\<rparr>;
               br2 = clean_up_routes br1 topic sid;
               br3 = clean_up_options br2 topic sid
           in RemoveSubscriber_loop br3 ids))"

definition session_ids :: "defaultBroker \<Rightarrow> Session \<Rightarrow> ID set" where
  "session_ids br sub = (case sessions br sub of None \<Rightarrow> {} | Some s \<Rightarrow> s)"

definition RemoveSubscriber :: "defaultBroker \<Rightarrow> Session \<Rightarrow> ID list \<Rightarrow> defaultBroker" where
  "RemoveSubscriber br sub ids =
     (let br' = RemoveSubscriber_loop br ids
      in br'\<lparr>sessions := (sessions br')(sub := None)\<rparr>)"

subsection \<open>Publish\<close>

text \<open>
  The inner loop of \<open>Publish\<close> ranges over \<open>msg.Options\<close>, in the order \<open>keys\<close>. It
  ends the iteration of the subscriber loop (\<open>continue subscriber\<close>) at the first key
  that the subscriber's options hold with a different value, and it panics where the
  comparison does.
\<close>

datatype verdict = Deliver | Skip | Panic

fun options_loop :: "dict \<Rightarrow> dict \<Rightarrow> string list \<Rightarrow> verdict" where
  "options_loop subOptions pubOptions [] = Deliver"
| "options_loop subOptions pubOptions (option # keys) =
     (case pubOptions option of
        None \<Rightarrow> options_loop subOptions pubOptions keys
      | Some pubValue \<Rightarrow>
          (case subOptions option of
             None \<Rightarrow> options_loop subOptions pubOptions keys
           | Some subValue \<Rightarrow>
               (case go_neq subValue pubValue of
                  None \<Rightarrow> Panic
                | Some True \<Rightarrow> Skip
                | Some False \<Rightarrow> options_loop subOptions pubOptions keys)))"

text \<open>
  \<open>br.options[msg.Topic][id]\<close>: reading a missing key gives the nil map, and reading
  from the nil map finds nothing.
\<close>

definition subOptions_of :: "defaultBroker \<Rightarrow> URI \<Rightarrow> ID \<Rightarrow> dict" where
  "subOptions_of br topic sid =
     (case options br topic of
        None \<Rightarrow> Map.empty
      | Some m \<Rightarrow> (case m sid of None \<Rightarrow> Map.empty | Some d \<Rightarrow> d))"

datatype status = Returned | Panicked

text \<open>
  The subscriber loop ranges over \<open>br.routes[msg.Topic]\<close> in the order \<open>ids\<close>; at the
  subscriber \<open>sid\<close> the inner loop ranges over \<open>msg.Options\<close> in the order \<open>korder sid\<close>.
  A panic ends the call: the sends made before it stay made.
\<close>

fun fanout ::
  "defaultBroker \<Rightarrow> Session \<Rightarrow> Publish_msg \<Rightarrow> Event \<Rightarrow> (ID \<Rightarrow> string list) \<Rightarrow> ID list
     \<Rightarrow> send list \<times> status" where
  "fanout br pub msg evtTemplate korder [] = ([], Returned)"
| "fanout br pub msg evtTemplate korder (sid # ids) =
     (case (case routes br (pub_Topic msg) of None \<Rightarrow> None | Some r \<Rightarrow> r sid) of
        None \<Rightarrow> fanout br pub msg evtTemplate korder ids
      | Some sub \<Rightarrow>
          (if sub = pub then fanout br pub msg evtTemplate korder ids
           else
             (case options_loop (subOptions_of br (pub_Topic msg) sid) (pub_Options msg)
                     (korder sid) of
                Skip \<Rightarrow> fanout br pub msg evtTemplate korder ids
              | Panic \<Rightarrow> ([], Panicked)
              | Deliver \<Rightarrow>
                  (let event = evtTemplate\<lparr>Subscription := sid\<rparr>;
                       rest = fanout br pub msg evtTemplate korder ids
                   in ((sub, Event_m event) # fst rest, snd rest)))))"

text \<open>
  \<open>pubID\<close> is the value \<open>NewID()\<close> returned. The result is the broker after the call,
  the sends in the order they were made, and whether the call returned.
\<close>

definition Publish ::
  "defaultBroker \<Rightarrow> Session \<Rightarrow> Publish_msg \<Rightarrow> ID \<Rightarrow> ID list \<Rightarrow> (ID \<Rightarrow> string list)
     \<Rightarrow> defaultBroker \<times> send list \<times> status" where
  "Publish br pub msg pubID ids korder =
     (let evtTemplate =
            \<lparr>Publication = pubID, Subscription = 0, Details = Map.empty,
             Arguments = pub_Arguments msg, ArgumentsKw = pub_ArgumentsKw msg\<rparr>;
          events = fanout br pub msg evtTemplate korder ids
      in case snd events of
           Panicked \<Rightarrow> (br, fst events, Panicked)
         | Returned \<Rightarrow>
             (if pub_Options msg ''acknowledge'' = Some (VBool True)
              then (br, fst events @ [(pub, Published (pub_Request msg) pubID)], Returned)
              else (br, fst events, Returned)))"

definition route_keys :: "defaultBroker \<Rightarrow> URI \<Rightarrow> ID set" where
  "route_keys br topic = (case routes br topic of None \<Rightarrow> {} | Some r \<Rightarrow> dom r)"

section \<open>The router\<close>

text \<open>
  A peer, a realm and a callback are opaque to the router: the model names each by a
  number. What the router does to them is an effect. The answers of the environment (the
  first message received, the result of the realm's \<open>handleAuth\<close>, the result of sending
  WELCOME, the fresh ID) are arguments.
\<close>

type_synonym Peer = nat
type_synonym Realm = nat
type_synonym callback = nat

text \<open>
  The errors the router returns. \<open>Errorf\<close> carries the text of a \<open>fmt.Errorf\<close> without
  arguments, \<open>ProtocolViolation\<close> stands for the text formatted with the kind of the
  message received, and \<open>PeerError\<close> is an error handed on from the peer.
\<close>

datatype error =
    Errorf string
  | ProtocolViolation message_type
  | RealmExistsError URI
  | NoSuchRealmError URI
  | AuthenticationError string
  | PeerError string

text \<open>
  The calls the router makes: \<open>Send\<close> and \<open>Close\<close> on a peer, \<open>init\<close> and \<open>Close\<close> on a
  realm, the goroutine of an open callback, and the goroutine that runs the realm's
  \<open>handleSession\<close> for a new session, closes the session and starts the close callbacks.
\<close>

datatype effect =
    PeerSend Peer message
  | PeerClose Peer
  | RealmInit Realm
  | RealmClose Realm
  | GoOpenCallback callback ID URI dict
  | GoSession Realm Peer ID URI dict "callback list"

record defaultRouter =
  realms :: "URI \<rightharpoonup> Realm"
  closing :: bool
  sessionOpenCallbacks :: "callback list"
  sessionCloseCallbacks :: "callback list"

definition NewDefaultRouter :: defaultRouter where
  "NewDefaultRouter =
     \<lparr>realms = Map.empty, closing = False,
      sessionOpenCallbacks = [], sessionCloseCallbacks = []\<rparr>"

text \<open>The empty struct of the \<open>roles\<close> table is written as an empty dictionary.\<close>

definition defaultWelcomeDetails :: dict where
  "defaultWelcomeDetails =
     [''roles'' \<mapsto> VMap [(''broker'', VMap []), (''dealer'', VMap [])]]"

fun MessageType :: "message \<Rightarrow> message_type" where
  "MessageType (Hello realm details) = HELLO"
| "MessageType (Welcome_m w) = WELCOME"
| "MessageType (Abort reason details) = ABORT"
| "MessageType (Published request publication) = PUBLISHED"
| "MessageType (Subscribed request subscription) = SUBSCRIBED"
| "MessageType (Unsubscribed request) = UNSUBSCRIBED"
| "MessageType (Event_m e) = EVENT"
| "MessageType (Error t request e) = ERROR"
| "MessageType (Other t) = t"

definition AddSessionOpenCallback :: "defaultRouter \<Rightarrow> callback \<Rightarrow> defaultRouter" where
  "AddSessionOpenCallback r fn = r\<lparr>sessionOpenCallbacks := sessionOpenCallbacks r @ [fn]\<rparr>"

definition AddSessionCloseCallback :: "defaultRouter \<Rightarrow> callback \<Rightarrow> defaultRouter" where
  "AddSessionCloseCallback r fn = r\<lparr>sessionCloseCallbacks := sessionCloseCallbacks r @ [fn]\<rparr>"

text \<open>The loop of \<open>Close\<close> ranges over \<open>r.realms\<close> in the order \<open>uris\<close>.\<close>

fun Close_loop :: "defaultRouter \<Rightarrow> URI list \<Rightarrow> effect list" where
  "Close_loop r [] = []"
| "Close_loop r (uri # uris) =
     (case realms r uri of
        None \<Rightarrow> Close_loop r uris
      | Some realm \<Rightarrow> RealmClose realm # Close_loop r uris)"

definition Close ::
  "defaultRouter \<Rightarrow> URI list \<Rightarrow> defaultRouter \<times> error option \<times> effect list" where
  "Close r uris =
     (if closing r then (r, Some (Errorf ''already closed''), [])
      else (let r1 = r\<lparr>closing := True\<rparr>
            in (r1, None, Close_loop r1 uris)))"

definition RegisterRealm ::
  "defaultRouter \<Rightarrow> URI \<Rightarrow> Realm \<Rightarrow> defaultRouter \<times> error option \<times> effect list" where
  "RegisterRealm r uri realm =
     (case realms r uri of
        Some x \<Rightarrow> (r, Some (RealmExistsError uri), [])
      | None \<Rightarrow> (r\<lparr>realms := (realms r)(uri \<mapsto> realm)\<rparr>, None, [RealmInit realm]))"

text \<open>
  \<open>Accept\<close>: \<open>received\<close> is the result of \<open>GetMessageTimeout(client, 5*time.Second)\<close>,
  \<open>handleAuth\<close> the realm's method, \<open>newID\<close> the value \<open>NewID()\<close> returned, \<open>sent\<close> the
  result of \<open>client.Send(welcome)\<close>. The session and its goroutine are the effect
  \<open>GoSession\<close>.
\<close>

definition Accept ::
  "defaultRouter \<Rightarrow> Peer \<Rightarrow> string + message \<Rightarrow> (Realm \<Rightarrow> Peer \<Rightarrow> dict \<Rightarrow> string + Welcome)
     \<Rightarrow> ID \<Rightarrow> string option \<Rightarrow> defaultRouter \<times> error option \<times> effect list" where
  "Accept r client received handleAuth newID sent =
     (if closing r
      then (r, Some (Errorf ''Router is closing, no new connections are allowed''),
            [PeerSend client (Abort ErrSystemShutdown Map.empty), PeerClose client])
      else
        (case received of
           Inl err \<Rightarrow> (r, Some (PeerError err), [])
         | Inr msg \<Rightarrow>
             (case msg of
                Hello realm_uri details \<Rightarrow>
                  (case realms r realm_uri of
                     None \<Rightarrow>
                       (r, Some (NoSuchRealmError realm_uri),
                        [PeerSend client (Abort ErrNoSuchRealm Map.empty), PeerClose client])
                   | Some realm \<Rightarrow>
                       (case handleAuth realm client details of
                          Inl e \<Rightarrow>
                            (r, Some (AuthenticationError e),
                             [PeerSend client
                                (Abort ErrAuthorizationFailed [''error'' \<mapsto> VString e]),
                              PeerClose client])
                        | Inr welcome \<Rightarrow>
                            (let welcome1 = welcome\<lparr>Id := newID\<rparr>;
                                 welcome2 = welcome1\<lparr>welcome_Details :=
                                    defaultWelcomeDetails ++ welcome_Details welcome1\<rparr>
                             in case sent of
                                  Some err \<Rightarrow>
                                    (r, Some (PeerError err),
                                     [PeerSend client (Welcome_m welcome2)])
                                | None \<Rightarrow>
                                    (r, None,
                                     PeerSend client (Welcome_m welcome2)
                                     # map (\<lambda>cb. GoOpenCallback cb (Id welcome2) realm_uri
                                              (welcome_Details welcome2))
                                         (sessionOpenCallbacks r)
                                     @ [GoSession realm client (Id welcome2) realm_uri
                                          (welcome_Details welcome2)
                                          (sessionCloseCallbacks r)]))))
              | _ \<Rightarrow>
                  (r, Some (ProtocolViolation (MessageType msg)),
                   [PeerSend client (Abort ''wamp.error.protocol_violation'' Map.empty),
                    PeerClose client]))))"

text \<open>
  \<open>GetLocalPeer\<close>: \<open>peerA\<close> and \<open>peerB\<close> are the two ends \<open>localPipe()\<close> returned,
  \<open>newID\<close> the value \<open>NewID()\<close> returned.
\<close>

definition GetLocalPeer ::
  "defaultRouter \<Rightarrow> URI \<Rightarrow> dict \<Rightarrow> Peer \<Rightarrow> Peer \<Rightarrow> ID
     \<Rightarrow> defaultRouter \<times> (error + Peer) \<times> effect list" where
  "GetLocalPeer r realmURI details peerA peerB newID =
     (case realms r realmURI of
        Some realm \<Rightarrow> (r, Inr peerB, [GoSession realm peerA newID realmURI details []])
      | None \<Rightarrow> (r, Inl (NoSuchRealmError realmURI), []))"

section \<open>Properties of the broker\<close>

text \<open>
  Two readings of the nested maps: the session a subscription ID is routed to under a
  topic, and the options stored for it. A missing topic has no entries.
\<close>

definition route_at :: "defaultBroker \<Rightarrow> URI \<Rightarrow> ID \<Rightarrow> Session option" where
  "route_at br topic sid = (case routes br topic of None \<Rightarrow> None | Some r \<Rightarrow> r sid)"

definition option_at :: "defaultBroker \<Rightarrow> URI \<Rightarrow> ID \<Rightarrow> dict option" where
  "option_at br topic sid = (case options br topic of None \<Rightarrow> None | Some m \<Rightarrow> m sid)"

text \<open>
  The four members of the consistency chain. An expression such as
  \<open>routes[subscriptions[id]][id]\<close> exists when each lookup in it finds its key.
\<close>

definition in_subscriptions :: "defaultBroker \<Rightarrow> ID \<Rightarrow> bool" where
  "in_subscriptions br sid = (subscriptions br sid \<noteq> None)"

definition route_exists :: "defaultBroker \<Rightarrow> ID \<Rightarrow> bool" where
  "route_exists br sid =
     (case subscriptions br sid of
        None \<Rightarrow> False
      | Some topic \<Rightarrow> (case routes br topic of None \<Rightarrow> False | Some r \<Rightarrow> r sid \<noteq> None))"

definition option_exists :: "defaultBroker \<Rightarrow> ID \<Rightarrow> bool" where
  "option_exists br sid =
     (case subscriptions br sid of
        None \<Rightarrow> False
      | Some topic \<Rightarrow> (case options br topic of None \<Rightarrow> False | Some m \<Rightarrow> m sid \<noteq> None))"

definition in_route_session :: "defaultBroker \<Rightarrow> ID \<Rightarrow> bool" where
  "in_route_session br sid =
     (case subscriptions br sid of
        None \<Rightarrow> False
      | Some topic \<Rightarrow>
          (case routes br topic of
             None \<Rightarrow> False
           | Some r \<Rightarrow>
               (case r sid of
                  None \<Rightarrow> False
                | Some s \<Rightarrow> (case sessions br s of None \<Rightarrow> False | Some ids \<Rightarrow> sid \<in> ids))))"

definition four_map_invariant :: "defaultBroker \<Rightarrow> bool" where
  "four_map_invariant br =
     (\<forall>sid. (in_subscriptions br sid = route_exists br sid)
          \<and> (route_exists br sid = option_exists br sid)
          \<and> (option_exists br sid = in_route_session br sid))"

text \<open>The same invariant, read from the reverse index outwards.\<close>

definition linked :: "defaultBroker \<Rightarrow> bool" where
  "linked br =
     (\<forall>sid t. subscriptions br sid = Some t \<longrightarrow>
        (\<exists>s. route_at br t sid = Some s \<and> sid \<in> session_ids br s) \<and> option_at br t sid \<noteq> None)"

text \<open>
  Sequences of broker operations. A \<open>RemoveSubscriber\<close> carries the order in which its
  loop ranged over the session's IDs; \<open>orders_ok\<close> says that each such order enumerates
  the IDs the session holds when the operation runs.
\<close>

datatype broker_op =
    Op_Subscribe Session Subscribe_msg ID
  | Op_Unsubscribe Session Unsubscribe_msg
  | Op_RemoveSubscriber Session "ID list"

fun apply_op :: "defaultBroker \<Rightarrow> broker_op \<Rightarrow> defaultBroker" where
  "apply_op br (Op_Subscribe sub msg sid) = fst (Subscribe br sub msg sid)"
| "apply_op br (Op_Unsubscribe sub msg) = fst (Unsubscribe br sub msg)"
| "apply_op br (Op_RemoveSubscriber sub ids) = RemoveSubscriber br sub ids"

fun run :: "defaultBroker \<Rightarrow> broker_op list \<Rightarrow> defaultBroker" where
  "run br [] = br"
| "run br (x # xs) = run (apply_op br x) xs"

fun order_ok :: "defaultBroker \<Rightarrow> broker_op \<Rightarrow> bool" where
  "order_ok br (Op_RemoveSubscriber sub ids) = enumerates ids (session_ids br sub)"
| "order_ok br other = True"

fun orders_ok :: "defaultBroker \<Rightarrow> broker_op list \<Rightarrow> bool" where
  "orders_ok br [] = True"
| "orders_ok br (x # xs) = (order_ok br x \<and> orders_ok (apply_op br x) xs)"

text \<open>
  The other invariants of the data model. \<open>pruned\<close>: no topic and no session is kept
  with nothing under it. \<open>indexed\<close>: an ID filed under a topic is the ID of a
  subscription to that topic. \<open>one_holder\<close>: an ID is held by one session at most. The
  last two rest on \<open>NewID()\<close> returning an ID that is \<open>fresh\<close>: one that occurs nowhere
  in the four maps.
\<close>

definition pruned :: "defaultBroker \<Rightarrow> bool" where
  "pruned br =
     ((\<forall>t r. routes br t = Some r \<longrightarrow> dom r \<noteq> {}) \<and>
      (\<forall>t m. options br t = Some m \<longrightarrow> dom m \<noteq> {}) \<and>
      (\<forall>s ids. sessions br s = Some ids \<longrightarrow> ids \<noteq> {}))"

definition indexed :: "defaultBroker \<Rightarrow> bool" where
  "indexed br =
     ((\<forall>t sid s. route_at br t sid = Some s \<longrightarrow> subscriptions br sid = Some t) \<and>
      (\<forall>t sid d. option_at br t sid = Some d \<longrightarrow> subscriptions br sid = Some t))"

definition one_holder :: "defaultBroker \<Rightarrow> bool" where
  "one_holder br =
     (\<forall>sid s s'. sid \<in> session_ids br s \<longrightarrow> sid \<in> session_ids br s' \<longrightarrow> s = s')"

definition broker_invariant :: "defaultBroker \<Rightarrow> bool" where
  "broker_invariant br =
     (four_map_invariant br \<and> indexed br \<and> one_holder br \<and> pruned br)"

definition fresh :: "defaultBroker \<Rightarrow> ID \<Rightarrow> bool" where
  "fresh br sid =
     (subscriptions br sid = None \<and> (\<forall>t. route_at br t sid = None) \<and>
      (\<forall>t. option_at br t sid = None) \<and> (\<forall>s. sid \<notin> session_ids br s))"

fun step_ok :: "defaultBroker \<Rightarrow> broker_op \<Rightarrow> bool" where
  "step_ok br (Op_Subscribe sub msg sid) = fresh br sid"
| "step_ok br (Op_Unsubscribe sub msg) = True"
| "step_ok br (Op_RemoveSubscriber sub ids) = enumerates ids (session_ids br sub)"

fun steps_ok :: "defaultBroker \<Rightarrow> broker_op list \<Rightarrow> bool" where
  "steps_ok br [] = True"
| "steps_ok br (x # xs) = (step_ok br x \<and> steps_ok (apply_op br x) xs)"

section \<open>Properties of Publish\<close>

text \<open>
  The option filter as the specification words it: for every key present in both option
  maps the two values are equal. \<open>comparable_options\<close>: no key present in both holds
  two values whose comparison panics.
\<close>

definition passes :: "dict \<Rightarrow> dict \<Rightarrow> bool" where
  "passes subOptions pubOptions =
     (\<forall>k sv pv. subOptions k = Some sv \<longrightarrow> pubOptions k = Some pv \<longrightarrow> sv = pv)"

definition comparable_options :: "dict \<Rightarrow> dict \<Rightarrow> bool" where
  "comparable_options subOptions pubOptions =
     (\<forall>k sv pv. subOptions k = Some sv \<longrightarrow> pubOptions k = Some pv \<longrightarrow> go_neq sv pv \<noteq> None)"

text \<open>
  The entries of \<open>routes[msg.Topic]\<close> that are to receive the event: the target is not
  the publisher and the options stored for the ID pass the filter.
\<close>

definition recipient :: "defaultBroker \<Rightarrow> Session \<Rightarrow> Publish_msg \<Rightarrow> ID \<Rightarrow> bool" where
  "recipient br pub msg sid =
     (case route_at br (pub_Topic msg) sid of
        None \<Rightarrow> False
      | Some sub \<Rightarrow> sub \<noteq> pub \<and> passes (subOptions_of br (pub_Topic msg) sid) (pub_Options msg))"

definition acknowledge :: "Publish_msg \<Rightarrow> bool" where
  "acknowledge msg = (pub_Options msg ''acknowledge'' = Some (VBool True))"

definition template :: "Publish_msg \<Rightarrow> ID \<Rightarrow> Event" where
  "template msg pubID =
     \<lparr>Publication = pubID, Subscription = 0, Details = Map.empty,
      Arguments = pub_Arguments msg, ArgumentsKw = pub_ArgumentsKw msg\<rparr>"

definition event_for :: "defaultBroker \<Rightarrow> Publish_msg \<Rightarrow> ID \<Rightarrow> ID \<Rightarrow> send" where
  "event_for br msg pubID sid =
     (the (route_at br (pub_Topic msg) sid),
      Event_m ((template msg pubID)\<lparr>Subscription := sid\<rparr>))"

section \<open>Sequences of router operations\<close>

datatype router_op =
    R_Close "URI list"
  | R_RegisterRealm URI Realm
  | R_Accept Peer "string + message" "Realm \<Rightarrow> Peer \<Rightarrow> dict \<Rightarrow> string + Welcome" ID
      "string option"
  | R_GetLocalPeer URI dict Peer Peer ID
  | R_AddSessionOpenCallback callback
  | R_AddSessionCloseCallback callback

fun router_step :: "defaultRouter \<Rightarrow> router_op \<Rightarrow> defaultRouter" where
  "router_step r (R_Close uris) = fst (Close r uris)"
| "router_step r (R_RegisterRealm uri realm) = fst (RegisterRealm r uri realm)"
| "router_step r (R_Accept client received handleAuth newID sent) =
     fst (Accept r client received handleAuth newID sent)"
| "router_step r (R_GetLocalPeer realmURI details peerA peerB newID) =
     fst (GetLocalPeer r realmURI details peerA peerB newID)"
| "router_step r (R_AddSessionOpenCallback fn) = AddSessionOpenCallback r fn"
| "router_step r (R_AddSessionCloseCallback fn) = AddSessionCloseCallback r fn"

fun router_run :: "defaultRouter \<Rightarrow> router_op list \<Rightarrow> defaultRouter" where
  "router_run r [] = r"
| "router_run r (x # xs) = router_run (router_step r x) xs"

section \<open>Example states and messages\<close>

definition msg_t :: Subscribe_msg where
  "msg_t = \<lparr>sub_Request = 1, sub_Options = Map.empty, sub_Topic = ''t''\<rparr>"

definition unsub_7 :: Unsubscribe_msg where
  "unsub_7 = \<lparr>unsub_Request = 2, unsub_Subscription = 7\<rparr>"

definition unsub_8 :: Unsubscribe_msg where
  "unsub_8 = \<lparr>unsub_Request = 4, unsub_Subscription = 8\<rparr>"

text \<open>Session 1 holds subscription 7 to the topic \<open>t\<close>.\<close>

definition br_one :: defaultBroker where
  "br_one = fst (Subscribe NewDefaultBroker 1 msg_t 7)"

text \<open>
  Session 1 subscribes, session 2 unsubscribes the ID of session 1, session 1 leaves.
\<close>

definition ops_foreign :: "broker_op list" where
  "ops_foreign =
     [Op_Subscribe 1 msg_t 7, Op_Unsubscribe 2 unsub_7, Op_RemoveSubscriber 1 [7]]"

text \<open>
  Session 1 subscribes to \<open>t\<close> with the option \<open>x\<close> set to an empty list; session 2
  publishes to \<open>t\<close> with the option \<open>x\<close> set to an empty list, without and with
  \<open>acknowledge\<close>.
\<close>

definition sub_slice :: Subscribe_msg where
  "sub_slice = \<lparr>sub_Request = 1, sub_Options = [''x'' \<mapsto> VList []], sub_Topic = ''t''\<rparr>"

definition br_slice :: defaultBroker where
  "br_slice = fst (Subscribe NewDefaultBroker 1 sub_slice 7)"

definition pub_slice :: Publish_msg where
  "pub_slice =
     \<lparr>pub_Request = 9, pub_Options = [''x'' \<mapsto> VList []], pub_Topic = ''t'',
      pub_Arguments = [], pub_ArgumentsKw = Map.empty\<rparr>"

definition pub_slice_ack :: Publish_msg where
  "pub_slice_ack =
     \<lparr>pub_Request = 9,
      pub_Options = [''acknowledge'' \<mapsto> VBool True, ''x'' \<mapsto> VList []],
      pub_Topic = ''t'', pub_Arguments = [], pub_ArgumentsKw = Map.empty\<rparr>"

text \<open>A router with the realms \<open>a\<close> and \<open>b\<close> registered.\<close>

definition router_two :: defaultRouter where
  "router_two = fst (RegisterRealm (fst (RegisterRealm NewDefaultRouter ''a'' 1)) ''b'' 2)"

section \<open>Proofs\<close>

lemma clean_up_routes_fields [simp]:
  "subscriptions (clean_up_routes br t sid) = subscriptions br"
  "options (clean_up_routes br t sid) = options br"
  "sessions (clean_up_routes br t sid) = sessions br"
  by (simp_all add: clean_up_routes_def Let_def split: option.splits)

lemma clean_up_options_fields [simp]:
  "subscriptions (clean_up_options br t sid) = subscriptions br"
  "routes (clean_up_options br t sid) = routes br"
  "sessions (clean_up_options br t sid) = sessions br"
  by (simp_all add: clean_up_options_def Let_def split: option.splits)

lemma clean_up_sender_fields [simp]:
  "subscriptions (clean_up_sender br s sid) = subscriptions br"
  "routes (clean_up_sender br s sid) = routes br"
  "options (clean_up_sender br s sid) = options br"
  by (simp_all add: clean_up_sender_def Let_def split: option.splits)

lemma route_at_clean_up_routes:
  "route_at (clean_up_routes br t sid) t' sid' =
     (if t' = t \<and> sid' = sid then None else route_at br t' sid')"
  by (auto simp: route_at_def clean_up_routes_def Let_def dom_def split: option.splits)

lemma option_at_clean_up_options:
  "option_at (clean_up_options br t sid) t' sid' =
     (if t' = t \<and> sid' = sid then None else option_at br t' sid')"
  by (auto simp: option_at_def clean_up_options_def Let_def dom_def split: option.splits)

lemma session_ids_clean_up_sender:
  "session_ids (clean_up_sender br sub sid) s =
     (if s = sub then session_ids br sub - {sid} else session_ids br s)"
  by (auto simp: session_ids_def clean_up_sender_def Let_def split: option.splits)

lemma route_at_cong: "routes br' = routes br \<Longrightarrow> route_at br' = route_at br"
  by (simp add: route_at_def fun_eq_iff)

lemma option_at_cong: "options br' = options br \<Longrightarrow> option_at br' = option_at br"
  by (simp add: option_at_def fun_eq_iff)

lemma session_ids_cong: "sessions br' = sessions br \<Longrightarrow> session_ids br' = session_ids br"
  by (simp add: session_ids_def fun_eq_iff)

subsection \<open>Subscribe, read through the maps\<close>

lemma Subscribe_subscriptions:
  "subscriptions (fst (Subscribe br sub msg sid)) = (subscriptions br)(sid \<mapsto> sub_Topic msg)"
  by (simp add: Subscribe_def Let_def)

lemma Subscribe_route_at:
  "route_at (fst (Subscribe br sub msg sid)) t' sid' =
     (if t' = sub_Topic msg \<and> sid' = sid then Some sub else route_at br t' sid')"
  by (simp add: Subscribe_def Let_def route_at_def split: option.splits)

lemma Subscribe_option_at:
  "option_at (fst (Subscribe br sub msg sid)) t' sid' =
     (if t' = sub_Topic msg \<and> sid' = sid then Some (sub_Options msg) else option_at br t' sid')"
  by (simp add: Subscribe_def Let_def option_at_def split: option.splits)

lemma Subscribe_session_ids:
  "session_ids (fst (Subscribe br sub msg sid)) s =
     (if s = sub then insert sid (session_ids br sub) else session_ids br s)"
  by (simp add: Subscribe_def Let_def session_ids_def split: option.splits)

subsection \<open>Unsubscribe, read through the maps\<close>

lemma Unsubscribe_unknown:
  "subscriptions br (unsub_Subscription msg) = None \<Longrightarrow> fst (Unsubscribe br sub msg) = br"
  by (simp add: Unsubscribe_def)

lemma Unsubscribe_subscriptions:
  "subscriptions (fst (Unsubscribe br sub msg)) = (subscriptions br)(unsub_Subscription msg := None)"
  by (auto simp add: Unsubscribe_def Let_def split: option.splits)

lemma Unsubscribe_route_at:
  "subscriptions br (unsub_Subscription msg) = Some topic \<Longrightarrow>
   route_at (fst (Unsubscribe br sub msg)) t' sid' =
     (if t' = topic \<and> sid' = unsub_Subscription msg then None else route_at br t' sid')"
  by (simp add: Unsubscribe_def Let_def route_at_cong [of "clean_up_sender _ _ _"] 
       route_at_cong [of "clean_up_options _ _ _"] route_at_clean_up_routes)
     (simp add: route_at_def)

lemma Unsubscribe_option_at:
  "subscriptions br (unsub_Subscription msg) = Some topic \<Longrightarrow>
   option_at (fst (Unsubscribe br sub msg)) t' sid' =
     (if t' = topic \<and> sid' = unsub_Subscription msg then None else option_at br t' sid')"
  by (simp add: Unsubscribe_def Let_def option_at_cong [of "clean_up_sender _ _ _"]
       option_at_clean_up_options)
     (simp add: option_at_def)

lemma Unsubscribe_session_ids:
  "subscriptions br (unsub_Subscription msg) = Some topic \<Longrightarrow>
   session_ids (fst (Unsubscribe br sub msg)) s =
     (if s = sub then session_ids br sub - {unsub_Subscription msg} else session_ids br s)"
  by (simp add: Unsubscribe_def Let_def session_ids_clean_up_sender)
     (simp add: session_ids_def)

subsection \<open>RemoveSubscriber, read through the maps\<close>

lemma loop_sessions [simp]:
  "sessions (RemoveSubscriber_loop br ids) = sessions br"
  by (induction ids arbitrary: br) (simp_all add: Let_def split: option.splits)

lemma loop_subscriptions:
  "subscriptions (RemoveSubscriber_loop br ids) sid =
     (if sid \<in> set ids then None else subscriptions br sid)"
  by (induction ids arbitrary: br) (auto simp: Let_def split: option.splits)

lemma loop_route_at:
  "route_at (RemoveSubscriber_loop br ids) t sid =
     (if sid \<in> set ids \<and> subscriptions br sid = Some t then None else route_at br t sid)"
proof (induction ids arbitrary: br)
  case Nil
  show ?case by simp
next
  case (Cons x xs)
  show ?case
  proof (cases "subscriptions br x")
    case None
    then show ?thesis using Cons.IH [of br] by auto
  next
    case (Some topic)
    let ?b = "clean_up_options (clean_up_routes (br\<lparr>subscriptions := (subscriptions br)(x := None)\<rparr>) topic x) topic x"
    have r: "route_at ?b t sid = (if t = topic \<and> sid = x then None else route_at br t sid)"
      by (simp add: route_at_cong [of "clean_up_options _ _ _"] route_at_clean_up_routes)
         (simp add: route_at_def)
    have s: "subscriptions ?b = (subscriptions br)(x := None)" by simp
    show ?thesis using Some Cons.IH [of ?b] r s by (auto simp: Let_def)
  qed
qed

lemma loop_option_at:
  "option_at (RemoveSubscriber_loop br ids) t sid =
     (if sid \<in> set ids \<and> subscriptions br sid = Some t then None else option_at br t sid)"
proof (induction ids arbitrary: br)
  case Nil
  show ?case by simp
next
  case (Cons x xs)
  show ?case
  proof (cases "subscriptions br x")
    case None
    then show ?thesis using Cons.IH [of br] by auto
  next
    case (Some topic)
    let ?b = "clean_up_options (clean_up_routes (br\<lparr>subscriptions := (subscriptions br)(x := None)\<rparr>) topic x) topic x"
    have r: "option_at ?b t sid = (if t = topic \<and> sid = x then None else option_at br t sid)"
      by (simp add: option_at_clean_up_options) (simp add: option_at_def)
    have s: "subscriptions ?b = (subscriptions br)(x := None)" by simp
    show ?thesis using Some Cons.IH [of ?b] r s by (auto simp: Let_def)
  qed
qed

lemma RemoveSubscriber_subscriptions:
  "subscriptions (RemoveSubscriber br sub ids) sid =
     (if sid \<in> set ids then None else subscriptions br sid)"
  by (simp add: RemoveSubscriber_def Let_def loop_subscriptions)

lemma RemoveSubscriber_route_at:
  "route_at (RemoveSubscriber br sub ids) t sid =
     (if sid \<in> set ids \<and> subscriptions br sid = Some t then None else route_at br t sid)"
  by (simp add: RemoveSubscriber_def Let_def route_at_cong [of "_\<lparr>sessions := _\<rparr>"] loop_route_at)

lemma RemoveSubscriber_option_at:
  "option_at (RemoveSubscriber br sub ids) t sid =
     (if sid \<in> set ids \<and> subscriptions br sid = Some t then None else option_at br t sid)"
  by (simp add: RemoveSubscriber_def Let_def option_at_cong [of "_\<lparr>sessions := _\<rparr>"] loop_option_at)

lemma RemoveSubscriber_session_ids:
  "session_ids (RemoveSubscriber br sub ids) s = (if s = sub then {} else session_ids br s)"
  by (simp add: RemoveSubscriber_def Let_def session_ids_def)

subsection \<open>The four-map invariant is kept\<close>

lemma linkedD:
  assumes "linked br" and "subscriptions br sid = Some t"
  obtains s d where "route_at br t sid = Some s" and "sid \<in> session_ids br s"
    and "option_at br t sid = Some d"
  using assms unfolding linked_def by blast

lemma four_map_invariant_iff: "four_map_invariant br = linked br"
proof
  assume inv: "four_map_invariant br"
  show "linked br"
    unfolding linked_def
  proof (intro allI impI)
    fix sid t
    assume s: "subscriptions br sid = Some t"
    have "in_subscriptions br sid" using s by (simp add: in_subscriptions_def)
    with inv have "option_exists br sid" and "in_route_session br sid"
      by (simp_all add: four_map_invariant_def)
    then show "(\<exists>s. route_at br t sid = Some s \<and> sid \<in> session_ids br s)
        \<and> option_at br t sid \<noteq> None"
      using s
      by (auto simp: option_exists_def in_route_session_def route_at_def option_at_def
            session_ids_def split: option.splits)
  qed
next
  assume l: "linked br"
  show "four_map_invariant br"
    unfolding four_map_invariant_def
  proof (intro allI)
    fix sid
    show "in_subscriptions br sid = route_exists br sid \<and>
          route_exists br sid = option_exists br sid \<and>
          option_exists br sid = in_route_session br sid"
    proof (cases "subscriptions br sid")
      case None
      then show ?thesis
        by (simp add: in_subscriptions_def route_exists_def option_exists_def
              in_route_session_def)
    next
      case (Some t)
      from linkedD [OF l Some] obtain s d where
        "route_at br t sid = Some s" "sid \<in> session_ids br s" "option_at br t sid = Some d"
        by blast
      then show ?thesis using Some
        by (auto simp: in_subscriptions_def route_exists_def option_exists_def
              in_route_session_def route_at_def option_at_def session_ids_def
              split: option.splits)
    qed
  qed
qed

lemma linked_new: "linked NewDefaultBroker"
  by (simp add: linked_def NewDefaultBroker_def)

lemma linked_Subscribe:
  assumes l: "linked br"
  shows "linked (fst (Subscribe br sub msg sid))"
  unfolding linked_def
proof (intro allI impI)
  fix sid' t
  let ?b = "fst (Subscribe br sub msg sid)"
  assume a: "subscriptions ?b sid' = Some t"
  show "(\<exists>s. route_at ?b t sid' = Some s \<and> sid' \<in> session_ids ?b s) \<and> option_at ?b t sid' \<noteq> None"
  proof (cases "sid' = sid")
    case True
    then have "t = sub_Topic msg" using a by (simp add: Subscribe_subscriptions)
    then show ?thesis using True
      by (simp add: Subscribe_route_at Subscribe_option_at Subscribe_session_ids)
  next
    case False
    then have "subscriptions br sid' = Some t" using a by (simp add: Subscribe_subscriptions)
    from linkedD [OF l this] obtain s d where
      "route_at br t sid' = Some s" "sid' \<in> session_ids br s" "option_at br t sid' = Some d"
      by blast
    then show ?thesis using False
      by (auto simp: Subscribe_route_at Subscribe_option_at Subscribe_session_ids)
  qed
qed

lemma linked_Unsubscribe:
  assumes l: "linked br"
  shows "linked (fst (Unsubscribe br sub msg))"
proof (cases "subscriptions br (unsub_Subscription msg)")
  case None
  then show ?thesis using l by (simp add: Unsubscribe_unknown)
next
  case (Some topic)
  let ?b = "fst (Unsubscribe br sub msg)"
  show ?thesis
    unfolding linked_def
  proof (intro allI impI)
    fix sid t
    assume a: "subscriptions ?b sid = Some t"
    then have ne: "sid \<noteq> unsub_Subscription msg" and b: "subscriptions br sid = Some t"
      by (auto simp: Unsubscribe_subscriptions split: if_splits)
    from linkedD [OF l b] obtain s d where
      "route_at br t sid = Some s" "sid \<in> session_ids br s" "option_at br t sid = Some d"
      by blast
    then show "(\<exists>s. route_at ?b t sid = Some s \<and> sid \<in> session_ids ?b s)
        \<and> option_at ?b t sid \<noteq> None"
      using ne
      by (auto simp: Unsubscribe_route_at [OF Some] Unsubscribe_option_at [OF Some]
            Unsubscribe_session_ids [OF Some])
  qed
qed

lemma linked_RemoveSubscriber:
  assumes l: "linked br" and e: "enumerates ids (session_ids br sub)"
  shows "linked (RemoveSubscriber br sub ids)"
  unfolding linked_def
proof (intro allI impI)
  fix sid t
  let ?b = "RemoveSubscriber br sub ids"
  assume a: "subscriptions ?b sid = Some t"
  then have ni: "sid \<notin> set ids" and b: "subscriptions br sid = Some t"
    by (auto simp: RemoveSubscriber_subscriptions split: if_splits)
  from linkedD [OF l b] obtain s d where
    r: "route_at br t sid = Some s" "sid \<in> session_ids br s" "option_at br t sid = Some d"
    by blast
  have "s \<noteq> sub" using ni r(2) e by (auto simp: enumerates_def)
  then show "(\<exists>s. route_at ?b t sid = Some s \<and> sid \<in> session_ids ?b s)
      \<and> option_at ?b t sid \<noteq> None"
    using ni r
    by (simp add: RemoveSubscriber_route_at RemoveSubscriber_option_at
          RemoveSubscriber_session_ids)
qed

lemma linked_apply_op: "linked br \<Longrightarrow> order_ok br x \<Longrightarrow> linked (apply_op br x)"
  by (cases x) (simp_all add: linked_Subscribe linked_Unsubscribe linked_RemoveSubscriber)

lemma linked_run: "linked br \<Longrightarrow> orders_ok br xs \<Longrightarrow> linked (run br xs)"
  by (induction xs arbitrary: br) (simp_all add: linked_apply_op)

lemma orders_ok_take: "orders_ok br xs \<Longrightarrow> orders_ok br (take n xs)"
  by (induction xs arbitrary: br n) (auto simp: take_Cons split: nat.splits)

lemma restore_routes:
  assumes "pruned br" and "\<forall>t. route_at br t sid = None"
    and b: "routes b = (routes br)(topic \<mapsto> (case routes br topic of None \<Rightarrow> Map.empty | Some r \<Rightarrow> r)(sid \<mapsto> s))"
  shows "routes (clean_up_routes b topic sid) = routes br"
proof (cases "routes br topic")
  case None
  then show ?thesis using b by (simp add: clean_up_routes_def Let_def fun_upd_idem_iff)
next
  case (Some r)
  have n: "r sid = None" using assms(2) Some by (auto simp: route_at_def split: option.splits)
  have d: "dom r \<noteq> {}" using assms(1) Some by (simp add: pruned_def)
  have e: "r(sid := None) = r" using n by (simp add: fun_upd_idem_iff)
  have g: "(routes br)(topic \<mapsto> r) = routes br" using Some by (simp add: fun_upd_idem_iff)
  show ?thesis using Some d b
    by (simp add: clean_up_routes_def Let_def e g)
qed

lemma restore_options:
  assumes "pruned br" and "\<forall>t. option_at br t sid = None"
    and b: "options b = (options br)(topic \<mapsto> (case options br topic of None \<Rightarrow> Map.empty | Some m \<Rightarrow> m)(sid \<mapsto> d))"
  shows "options (clean_up_options b topic sid) = options br"
proof (cases "options br topic")
  case None
  then show ?thesis using b by (simp add: clean_up_options_def Let_def fun_upd_idem_iff)
next
  case (Some m)
  have n: "m sid = None" using assms(2) Some by (auto simp: option_at_def split: option.splits)
  have d: "dom m \<noteq> {}" using assms(1) Some by (simp add: pruned_def)
  have e: "m(sid := None) = m" using n by (simp add: fun_upd_idem_iff)
  have g: "(options br)(topic \<mapsto> m) = options br" using Some by (simp add: fun_upd_idem_iff)
  show ?thesis using Some d b
    by (simp add: clean_up_options_def Let_def e g)
qed

lemma restore_sessions:
  assumes "pruned br" and "\<forall>s. sid \<notin> session_ids br s"
    and b: "sessions b = (sessions br)(sub \<mapsto> insert sid (case sessions br sub of None \<Rightarrow> {} | Some s \<Rightarrow> s))"
  shows "sessions (clean_up_sender b sub sid) = sessions br"
proof (cases "sessions br sub")
  case None
  then show ?thesis using b by (simp add: clean_up_sender_def Let_def fun_upd_idem_iff)
next
  case (Some ids)
  have n: "sid \<notin> ids" using assms(2) Some by (auto simp: session_ids_def split: option.splits)
  have d: "ids \<noteq> {}" using assms(1) Some by (simp add: pruned_def)
  have g: "(sessions br)(sub \<mapsto> ids) = sessions br" using Some by (simp add: fun_upd_idem_iff)
  show ?thesis using Some d b n
    by (simp add: clean_up_sender_def Let_def g)
qed

subsection \<open>No empty entry is kept\<close>

lemma pruned_clean_up_routes: "pruned br \<Longrightarrow> pruned (clean_up_routes br t sid)"
  by (auto simp: pruned_def clean_up_routes_def Let_def split: option.splits if_splits)

lemma pruned_clean_up_options: "pruned br \<Longrightarrow> pruned (clean_up_options br t sid)"
  by (auto simp: pruned_def clean_up_options_def Let_def split: option.splits if_splits)

lemma pruned_clean_up_sender: "pruned br \<Longrightarrow> pruned (clean_up_sender br s sid)"
  by (auto simp: pruned_def clean_up_sender_def Let_def split: option.splits if_splits)

lemma pruned_subscriptions_update:
  "pruned br \<Longrightarrow> pruned (br\<lparr>subscriptions := m\<rparr>)"
  by (simp add: pruned_def)

lemma pruned_new: "pruned NewDefaultBroker"
  by (simp add: pruned_def NewDefaultBroker_def)

lemma pruned_Subscribe: "pruned br \<Longrightarrow> pruned (fst (Subscribe br sub msg sid))"
  by (auto simp: pruned_def Subscribe_def Let_def split: option.splits if_splits)

lemma pruned_Unsubscribe: "pruned br \<Longrightarrow> pruned (fst (Unsubscribe br sub msg))"
  by (simp add: Unsubscribe_def Let_def pruned_clean_up_routes pruned_clean_up_options
        pruned_clean_up_sender pruned_subscriptions_update split: option.splits)

lemma pruned_loop: "pruned br \<Longrightarrow> pruned (RemoveSubscriber_loop br ids)"
  by (induction ids arbitrary: br)
     (simp_all add: Let_def pruned_clean_up_routes pruned_clean_up_options
        pruned_subscriptions_update split: option.splits)

lemma pruned_RemoveSubscriber: "pruned br \<Longrightarrow> pruned (RemoveSubscriber br sub ids)"
  using pruned_loop [of br ids]
  by (auto simp: RemoveSubscriber_def Let_def pruned_def split: if_splits)

lemma pruned_apply_op: "pruned br \<Longrightarrow> pruned (apply_op br x)"
  by (cases x) (simp_all add: pruned_Subscribe pruned_Unsubscribe pruned_RemoveSubscriber)

lemma pruned_run: "pruned br \<Longrightarrow> pruned (run br xs)"
  by (induction xs arbitrary: br) (simp_all add: pruned_apply_op)

subsection \<open>The index is kept under fresh IDs\<close>

lemma indexed_new: "indexed NewDefaultBroker"
  by (simp add: indexed_def NewDefaultBroker_def route_at_def option_at_def)

lemma indexed_Subscribe:
  assumes "indexed br" and "fresh br sid"
  shows "indexed (fst (Subscribe br sub msg sid))"
  using assms unfolding indexed_def fresh_def
  by (auto simp: Subscribe_subscriptions Subscribe_route_at Subscribe_option_at
        split: if_splits)

lemma indexed_routeD:
  "indexed br \<Longrightarrow> route_at br t sid = Some s \<Longrightarrow> subscriptions br sid = Some t"
  unfolding indexed_def by blast

lemma indexed_optionD:
  "indexed br \<Longrightarrow> option_at br t sid = Some d \<Longrightarrow> subscriptions br sid = Some t"
  unfolding indexed_def by blast

lemma indexed_Unsubscribe:
  assumes i: "indexed br"
  shows "indexed (fst (Unsubscribe br sub msg))"
proof (cases "subscriptions br (unsub_Subscription msg)")
  case None
  then show ?thesis using i by (simp add: Unsubscribe_unknown)
next
  case (Some topic)
  let ?b = "fst (Unsubscribe br sub msg)"
  show ?thesis
    unfolding indexed_def
  proof (intro conjI allI impI)
    fix t sid s
    assume "route_at ?b t sid = Some s"
    then have n: "\<not> (t = topic \<and> sid = unsub_Subscription msg)"
      and r: "route_at br t sid = Some s"
      by (auto simp: Unsubscribe_route_at [OF Some] split: if_splits)
    from indexed_routeD [OF i r] n Some
    show "subscriptions ?b sid = Some t"
      by (auto simp: Unsubscribe_subscriptions)
  next
    fix t sid d
    assume "option_at ?b t sid = Some d"
    then have n: "\<not> (t = topic \<and> sid = unsub_Subscription msg)"
      and r: "option_at br t sid = Some d"
      by (auto simp: Unsubscribe_option_at [OF Some] split: if_splits)
    from indexed_optionD [OF i r] n Some
    show "subscriptions ?b sid = Some t"
      by (auto simp: Unsubscribe_subscriptions)
  qed
qed

lemma indexed_RemoveSubscriber:
  assumes i: "indexed br"
  shows "indexed (RemoveSubscriber br sub ids)"
  unfolding indexed_def
proof (intro conjI allI impI)
  let ?b = "RemoveSubscriber br sub ids"
  fix t sid s
  assume "route_at ?b t sid = Some s"
  then have n: "\<not> (sid \<in> set ids \<and> subscriptions br sid = Some t)"
    and r: "route_at br t sid = Some s"
    by (auto simp: RemoveSubscriber_route_at split: if_splits)
  from indexed_routeD [OF i r] n
  show "subscriptions ?b sid = Some t"
    by (auto simp: RemoveSubscriber_subscriptions)
next
  let ?b = "RemoveSubscriber br sub ids"
  fix t sid d
  assume "option_at ?b t sid = Some d"
  then have n: "\<not> (sid \<in> set ids \<and> subscriptions br sid = Some t)"
    and r: "option_at br t sid = Some d"
    by (auto simp: RemoveSubscriber_option_at split: if_splits)
  from indexed_optionD [OF i r] n
  show "subscriptions ?b sid = Some t"
    by (auto simp: RemoveSubscriber_subscriptions)
qed

subsection \<open>One holder for each ID under fresh IDs\<close>

lemma one_holder_new: "one_holder NewDefaultBroker"
  by (simp add: one_holder_def NewDefaultBroker_def session_ids_def)

lemma one_holder_Subscribe:
  "one_holder br \<Longrightarrow> fresh br sid \<Longrightarrow> one_holder (fst (Subscribe br sub msg sid))"
  unfolding one_holder_def fresh_def
  by (auto simp: Subscribe_session_ids split: if_splits)

lemma one_holder_Unsubscribe:
  assumes i: "one_holder br"
  shows "one_holder (fst (Unsubscribe br sub msg))"
proof (cases "subscriptions br (unsub_Subscription msg)")
  case None
  then show ?thesis using i by (simp add: Unsubscribe_unknown)
next
  case (Some topic)
  show ?thesis using i unfolding one_holder_def
    by (auto simp: Unsubscribe_session_ids [OF Some] split: if_splits)
qed

lemma one_holder_RemoveSubscriber:
  "one_holder br \<Longrightarrow> one_holder (RemoveSubscriber br sub ids)"
  unfolding one_holder_def
  by (auto simp: RemoveSubscriber_session_ids split: if_splits)

lemma broker_invariant_new: "broker_invariant NewDefaultBroker"
  by (simp add: broker_invariant_def four_map_invariant_iff linked_new indexed_new
        one_holder_new pruned_new)

lemma broker_invariant_apply_op:
  "broker_invariant br \<Longrightarrow> step_ok br x \<Longrightarrow> broker_invariant (apply_op br x)"
  by (cases x)
     (simp_all add: broker_invariant_def four_map_invariant_iff
        linked_Subscribe linked_Unsubscribe linked_RemoveSubscriber
        indexed_Subscribe indexed_Unsubscribe indexed_RemoveSubscriber
        one_holder_Subscribe one_holder_Unsubscribe one_holder_RemoveSubscriber
        pruned_Subscribe pruned_Unsubscribe pruned_RemoveSubscriber)

lemma broker_invariant_run:
  "broker_invariant br \<Longrightarrow> steps_ok br xs \<Longrightarrow> broker_invariant (run br xs)"
  by (induction xs arbitrary: br) (simp_all add: broker_invariant_apply_op)

subsection \<open>The example states\<close>

lemma br_one_subscriptions: "subscriptions br_one = [7 \<mapsto> ''t'']"
  by (simp add: br_one_def msg_t_def Subscribe_subscriptions NewDefaultBroker_def)

lemma br_one_route_at: "route_at br_one t sid = (if t = ''t'' \<and> sid = 7 then Some 1 else None)"
  by (simp add: br_one_def msg_t_def Subscribe_route_at)
     (simp add: route_at_def NewDefaultBroker_def)

lemma br_one_option_at:
  "option_at br_one t sid = (if t = ''t'' \<and> sid = 7 then Some Map.empty else None)"
  by (simp add: br_one_def msg_t_def Subscribe_option_at)
     (simp add: option_at_def NewDefaultBroker_def)

lemma br_one_session_ids: "session_ids br_one s = (if s = 1 then {7} else {})"
  by (simp add: br_one_def Subscribe_session_ids)
     (simp add: session_ids_def NewDefaultBroker_def)

lemma fresh_new: "fresh NewDefaultBroker sid"
  by (simp add: fresh_def NewDefaultBroker_def route_at_def option_at_def session_ids_def)

lemma br_one_invariant: "broker_invariant br_one"
  using broker_invariant_apply_op [OF broker_invariant_new, of "Op_Subscribe 1 msg_t 7"]
  by (simp add: fresh_new br_one_def)

lemma br_one_pruned: "pruned br_one"
  using br_one_invariant by (simp add: broker_invariant_def)

lemma br_one_fresh_8: "fresh br_one 8"
  by (simp add: fresh_def br_one_subscriptions br_one_route_at br_one_option_at
        br_one_session_ids)

lemma ops_foreign_orders_ok: "orders_ok NewDefaultBroker ops_foreign"
  by (simp add: ops_foreign_def msg_t_def unsub_7_def enumerates_def Subscribe_session_ids
        Unsubscribe_session_ids [where topic = "''t''"] Subscribe_subscriptions)
     (simp add: session_ids_def NewDefaultBroker_def)

text \<open>After the second operation the ID is gone from \<open>subscriptions\<close> and still held by session 1.\<close>

lemma ops_foreign_stale:
  "subscriptions (run NewDefaultBroker (take 2 ops_foreign)) 7 = None"
  "session_ids (run NewDefaultBroker (take 2 ops_foreign)) 1 = {7}"
  by (simp_all add: ops_foreign_def msg_t_def unsub_7_def Unsubscribe_subscriptions
        Subscribe_subscriptions Unsubscribe_session_ids [where topic = "''t''"]
        Subscribe_session_ids)
     (simp add: session_ids_def NewDefaultBroker_def)

section \<open>The claims about the broker\<close>

text \<open>
  C1. For every sequence of \<open>Subscribe\<close>, \<open>Unsubscribe\<close> and \<open>RemoveSubscriber\<close>
  operations from the empty broker, the four-map invariant holds after each operation,
  that is, after every prefix of the sequence. The sessions, the messages and the IDs
  returned by \<open>NewID()\<close> are arbitrary: the requester of an \<open>Unsubscribe\<close> need not
  be the session that subscribed, and an ID may even repeat. The entry such an
  \<open>Unsubscribe\<close> leaves behind in \<open>sessions\<close> is not reached by the chain, which enters
  \<open>sessions\<close> only through \<open>subscriptions\<close> and \<open>routes\<close>.
\<close>

theorem four_map_invariant_after_each_operation:
  "orders_ok NewDefaultBroker ops \<Longrightarrow>
   \<forall>n. four_map_invariant (run NewDefaultBroker (take n ops))"
  by (simp add: four_map_invariant_iff linked_run linked_new orders_ok_take)

theorem four_map_invariant_after_each_operation_witness:
  "orders_ok NewDefaultBroker ops_foreign \<and>
   (\<forall>n. four_map_invariant (run NewDefaultBroker (take n ops_foreign)))"
  using four_map_invariant_after_each_operation [OF ops_foreign_orders_ok]
    ops_foreign_orders_ok
  by simp

text \<open>
  C4. In a broker state that keeps no empty entry (every state the operations produce
  is such a state, lemma \<open>pruned_run\<close>), \<open>Subscribe\<close> by a session with a fresh ID and
  then \<open>Unsubscribe\<close> of that ID by the same session gives back the four maps as they
  were, and answers UNSUBSCRIBED.
\<close>

theorem Subscribe_then_Unsubscribe_restores:
  assumes p: "pruned br" and f: "fresh br sid" and u: "unsub_Subscription msg' = sid"
  shows "Unsubscribe (fst (Subscribe br s msg sid)) s msg' = (br, [(s, Unsubscribed (unsub_Request msg'))])"
proof -
  let ?b = "fst (Subscribe br s msg sid)"
  let ?u = "fst (Unsubscribe ?b s msg')"
  have f1: "subscriptions br sid = None" and f2: "\<forall>t. route_at br t sid = None"
    and f3: "\<forall>t. option_at br t sid = None" and f4: "\<forall>s. sid \<notin> session_ids br s"
    using f by (simp_all add: fresh_def)
  have 1: "subscriptions ?u = subscriptions br"
    using f1 u by (simp add: Unsubscribe_subscriptions Subscribe_subscriptions fun_upd_idem_iff)
  have 2: "routes ?u = routes br"
    using u by (simp add: Unsubscribe_def Subscribe_def Let_def restore_routes [OF p f2])
  have 3: "options ?u = options br"
    using u by (simp add: Unsubscribe_def Subscribe_def Let_def restore_options [OF p f3])
  have 4: "sessions ?u = sessions br"
    using u by (simp add: Unsubscribe_def Subscribe_def Let_def restore_sessions [OF p f4])
  have 5: "snd (Unsubscribe ?b s msg') = [(s, Unsubscribed (unsub_Request msg'))]"
    using u by (simp add: Unsubscribe_def Subscribe_def Let_def)
  have "?u = br" using 1 2 3 4 by (simp add: defaultBroker.equality)
  with 5 show ?thesis by (simp add: prod_eq_iff)
qed

theorem Subscribe_then_Unsubscribe_restores_witness:
  "pruned br_one \<and> fresh br_one 8 \<and> unsub_Subscription unsub_8 = 8 \<and>
   Unsubscribe (fst (Subscribe br_one 1 msg_t 8)) 1 unsub_8 =
     (br_one, [(1, Unsubscribed (unsub_Request unsub_8))])"
  using Subscribe_then_Unsubscribe_restores [OF br_one_pruned br_one_fresh_8,
      of unsub_8 1 msg_t]
    br_one_pruned br_one_fresh_8
  by (simp add: unsub_8_def)

text \<open>
  C5. \<open>Unsubscribe\<close> of an ID that is not a key of \<open>subscriptions\<close> sends the requester
  one message, ERROR with the type UNSUBSCRIBE, the request of the message and the error
  \<open>wamp.error.no_such_subscription\<close>; it sends no UNSUBSCRIBED and leaves the four maps
  as they were.
\<close>

theorem Unsubscribe_no_such_subscription:
  "subscriptions br (unsub_Subscription msg) = None \<Longrightarrow>
   Unsubscribe br sub msg =
     (br, [(sub, Error UNSUBSCRIBE (unsub_Request msg) ''wamp.error.no_such_subscription'')])"
  by (simp add: Unsubscribe_def ErrNoSuchSubscription_def)

theorem Unsubscribe_no_such_subscription_witness:
  "subscriptions br_one (unsub_Subscription unsub_8) = None \<and>
   Unsubscribe br_one 2 unsub_8 =
     (br_one, [(2, Error UNSUBSCRIBE (unsub_Request unsub_8) ''wamp.error.no_such_subscription'')])"
  using Unsubscribe_no_such_subscription [of br_one unsub_8 2]
  by (simp add: unsub_8_def br_one_subscriptions)

text \<open>
  C6. In a broker state that satisfies the invariants of the data model (every state
  the operations produce from the empty broker with fresh IDs is such a state, lemma
  \<open>broker_invariant_run\<close>), after \<open>RemoveSubscriber\<close> of a session the session is neither
  a key of \<open>sessions\<close> nor a target in \<open>routes\<close>, and every ID the session held is in
  none of the four maps. When the session holds no ID the state is unchanged. An ID the
  session holds that \<open>subscriptions\<close> does not have is passed over: the function is total
  and has no failing branch.
\<close>

theorem RemoveSubscriber_clears:
  assumes inv: "broker_invariant br" and e: "enumerates ids (session_ids br s)"
  shows "sessions (RemoveSubscriber br s ids) s = None
       \<and> (\<forall>t sid. route_at (RemoveSubscriber br s ids) t sid \<noteq> Some s)
       \<and> (\<forall>sid \<in> session_ids br s.
            subscriptions (RemoveSubscriber br s ids) sid = None
          \<and> (\<forall>t. route_at (RemoveSubscriber br s ids) t sid = None)
          \<and> (\<forall>t. option_at (RemoveSubscriber br s ids) t sid = None)
          \<and> (\<forall>s'. sid \<notin> session_ids (RemoveSubscriber br s ids) s'))
       \<and> (session_ids br s = {} \<longrightarrow> RemoveSubscriber br s ids = br)"
proof -
  let ?b = "RemoveSubscriber br s ids"
  have l: "linked br" and i: "indexed br" and h: "one_holder br" and p: "pruned br"
    using inv by (simp_all add: broker_invariant_def four_map_invariant_iff)
  have ids: "set ids = session_ids br s" using e by (simp add: enumerates_def)
  have 1: "sessions ?b s = None" by (simp add: RemoveSubscriber_def Let_def)
  have 2: "route_at ?b t sid \<noteq> Some s" for t sid
  proof
    assume "route_at ?b t sid = Some s"
    then have n: "\<not> (sid \<in> set ids \<and> subscriptions br sid = Some t)"
      and r: "route_at br t sid = Some s"
      by (auto simp: RemoveSubscriber_route_at split: if_splits)
    have sb: "subscriptions br sid = Some t" by (rule indexed_routeD [OF i r])
    from linkedD [OF l sb] r have "sid \<in> session_ids br s" by auto
    with n sb ids show False by simp
  qed
  have 3: "subscriptions ?b sid = None \<and> (\<forall>t. route_at ?b t sid = None)
      \<and> (\<forall>t. option_at ?b t sid = None) \<and> (\<forall>s'. sid \<notin> session_ids ?b s')"
    if m: "sid \<in> session_ids br s" for sid
  proof (intro conjI allI)
    from m ids have mi: "sid \<in> set ids" by simp
    show "subscriptions ?b sid = None" using mi by (simp add: RemoveSubscriber_subscriptions)
    show "route_at ?b t sid = None" for t
    proof (cases "route_at br t sid")
      case None
      then show ?thesis by (simp add: RemoveSubscriber_route_at)
    next
      case (Some x)
      from indexed_routeD [OF i Some] mi show ?thesis by (simp add: RemoveSubscriber_route_at)
    qed
    show "option_at ?b t sid = None" for t
    proof (cases "option_at br t sid")
      case None
      then show ?thesis by (simp add: RemoveSubscriber_option_at)
    next
      case (Some x)
      from indexed_optionD [OF i Some] mi show ?thesis by (simp add: RemoveSubscriber_option_at)
    qed
    show "sid \<notin> session_ids ?b s'" for s'
      using h m unfolding one_holder_def
      by (auto simp: RemoveSubscriber_session_ids)
  qed
  have 4: "?b = br" if em: "session_ids br s = {}"
  proof -
    have "ids = []" using ids em by simp
    moreover have "sessions br s = None"
      using em p by (auto simp: session_ids_def pruned_def split: option.splits)
    ultimately show ?thesis
      by (simp add: RemoveSubscriber_def Let_def fun_upd_idem_iff)
  qed
  from 1 2 3 4 show ?thesis by blast
qed

theorem RemoveSubscriber_clears_witness:
  "broker_invariant br_one \<and> enumerates [7] (session_ids br_one 1) \<and>
   sessions (RemoveSubscriber br_one 1 [7]) 1 = None \<and>
   (\<forall>t sid. route_at (RemoveSubscriber br_one 1 [7]) t sid \<noteq> Some 1) \<and>
   subscriptions (RemoveSubscriber br_one 1 [7]) 7 = None \<and>
   (\<forall>t. route_at (RemoveSubscriber br_one 1 [7]) t 7 = None) \<and>
   (\<forall>t. option_at (RemoveSubscriber br_one 1 [7]) t 7 = None) \<and>
   (\<forall>s'. 7 \<notin> session_ids (RemoveSubscriber br_one 1 [7]) s')"
proof -
  have e: "enumerates [7] (session_ids br_one 1)"
    by (simp add: enumerates_def br_one_session_ids)
  show ?thesis
    using RemoveSubscriber_clears [OF br_one_invariant e] br_one_invariant e
    by (simp add: br_one_session_ids)
qed

text \<open>
  C10. \<open>Unsubscribe\<close> of a subscription by a session other than \<open>s0\<close>, the session that
  holds its ID: the ID leaves \<open>subscriptions\<close>, \<open>routes\<close> and \<open>options\<close>, UNSUBSCRIBED is
  sent to the requester, and the entry of \<open>s0\<close> in \<open>sessions\<close> is as it was, the ID
  still in it.
\<close>

theorem Unsubscribe_by_other_session:
  assumes "subscriptions br (unsub_Subscription msg) = Some topic"
    and "sub \<noteq> s0" and "unsub_Subscription msg \<in> session_ids br s0"
  shows "subscriptions (fst (Unsubscribe br sub msg)) (unsub_Subscription msg) = None
       \<and> route_at (fst (Unsubscribe br sub msg)) topic (unsub_Subscription msg) = None
       \<and> option_at (fst (Unsubscribe br sub msg)) topic (unsub_Subscription msg) = None
       \<and> snd (Unsubscribe br sub msg) = [(sub, Unsubscribed (unsub_Request msg))]
       \<and> sessions (fst (Unsubscribe br sub msg)) s0 = sessions br s0
       \<and> unsub_Subscription msg \<in> session_ids (fst (Unsubscribe br sub msg)) s0"
proof -
  note s = assms(1)
  have "sessions (fst (Unsubscribe br sub msg)) s0 = sessions br s0"
    using assms(2) s
    by (simp add: Unsubscribe_def Let_def clean_up_sender_def split: option.splits)
  moreover have "snd (Unsubscribe br sub msg) = [(sub, Unsubscribed (unsub_Request msg))]"
    using s by (simp add: Unsubscribe_def Let_def)
  ultimately show ?thesis
    using assms(2,3)
    by (simp add: Unsubscribe_subscriptions Unsubscribe_route_at [OF s]
          Unsubscribe_option_at [OF s] Unsubscribe_session_ids [OF s])
qed

theorem Unsubscribe_by_other_session_witness:
  "subscriptions br_one (unsub_Subscription unsub_7) = Some ''t'' \<and> (2::nat) \<noteq> 1 \<and>
   unsub_Subscription unsub_7 \<in> session_ids br_one 1 \<and>
   subscriptions (fst (Unsubscribe br_one 2 unsub_7)) 7 = None \<and>
   route_at (fst (Unsubscribe br_one 2 unsub_7)) ''t'' 7 = None \<and>
   option_at (fst (Unsubscribe br_one 2 unsub_7)) ''t'' 7 = None \<and>
   snd (Unsubscribe br_one 2 unsub_7) = [(2, Unsubscribed 2)] \<and>
   sessions (fst (Unsubscribe br_one 2 unsub_7)) 1 = sessions br_one 1 \<and>
   7 \<in> session_ids (fst (Unsubscribe br_one 2 unsub_7)) 1"
proof -
  have a: "subscriptions br_one (unsub_Subscription unsub_7) = Some ''t''"
    by (simp add: unsub_7_def br_one_subscriptions)
  have b: "(2::nat) \<noteq> 1" by simp
  have c: "unsub_Subscription unsub_7 \<in> session_ids br_one 1"
    by (simp add: unsub_7_def br_one_session_ids)
  show ?thesis
    using Unsubscribe_by_other_session [OF a b c] a b c
    by (simp add: unsub_7_def)
qed

section \<open>Publish\<close>

lemma go_neq_Some_False: "(go_neq a b = Some False) = (a = b \<and> comparable (kind_of a))"
  by (auto simp: go_neq_def)

lemma comparable_optionsD:
  "comparable_options s p \<Longrightarrow> s k = Some sv \<Longrightarrow> p k = Some pv \<Longrightarrow> \<exists>b. go_neq sv pv = Some b"
  unfolding comparable_options_def by blast

lemma options_loop_not_Panic:
  assumes "comparable_options s p"
  shows "options_loop s p keys \<noteq> Panic"
proof (induction keys)
  case Nil
  show ?case by simp
next
  case (Cons k keys)
  show ?case
  proof (cases "p k")
    case None
    then show ?thesis using Cons by simp
  next
    case pk: (Some pv)
    show ?thesis
    proof (cases "s k")
      case None
      then show ?thesis using Cons pk by simp
    next
      case sk: (Some sv)
      from comparable_optionsD [OF assms sk pk] obtain b where "go_neq sv pv = Some b"
        by blast
      then show ?thesis using Cons sk pk by (cases b) auto
    qed
  qed
qed

lemma options_loop_Deliver:
  "comparable_options s p \<Longrightarrow>
   (options_loop s p keys = Deliver) =
     (\<forall>k \<in> set keys. \<forall>sv pv. s k = Some sv \<longrightarrow> p k = Some pv \<longrightarrow> sv = pv)"
proof (induction keys)
  case Nil
  show ?case by simp
next
  case (Cons k keys)
  show ?case
  proof (cases "p k")
    case None
    then show ?thesis using Cons by simp
  next
    case pk: (Some pv)
    show ?thesis
    proof (cases "s k")
      case None
      then show ?thesis using Cons pk by simp
    next
      case sk: (Some sv)
      from comparable_optionsD [OF Cons.prems sk pk] obtain b where g: "go_neq sv pv = Some b"
        by blast
      then have "b = (sv \<noteq> pv)" by (auto simp: go_neq_def split: if_splits)
      then show ?thesis using Cons sk pk g by (cases b) auto
    qed
  qed
qed

lemma options_loop_passes:
  assumes "comparable_options s p" and "set keys = dom p"
  shows "options_loop s p keys = (if passes s p then Deliver else Skip)"
proof -
  have d: "(options_loop s p keys = Deliver) = passes s p"
    using options_loop_Deliver [OF assms(1), of keys] assms(2)
    by (auto simp: passes_def dom_def)
  show ?thesis
    using d options_loop_not_Panic [OF assms(1), of keys]
    by (cases "options_loop s p keys") auto
qed

lemma fanout_filtered:
  assumes k: "\<forall>sid. set (korder sid) = dom (pub_Options msg)"
    and c: "\<forall>sid. comparable_options (subOptions_of br (pub_Topic msg) sid) (pub_Options msg)"
  shows "fanout br pub msg (template msg pubID) korder ids =
           (map (event_for br msg pubID) (filter (recipient br pub msg) ids), Returned)"
proof (induction ids)
  case Nil
  show ?case by simp
next
  case (Cons sid ids)
  have o: "options_loop (subOptions_of br (pub_Topic msg) sid) (pub_Options msg) (korder sid) =
      (if passes (subOptions_of br (pub_Topic msg) sid) (pub_Options msg) then Deliver else Skip)"
    using options_loop_passes k c by blast
  show ?case
    using Cons o
    by (auto simp: recipient_def route_at_def event_for_def Let_def split: option.splits)
qed

lemma Publish_filtered:
  assumes k: "\<forall>sid. set (korder sid) = dom (pub_Options msg)"
    and c: "\<forall>sid. comparable_options (subOptions_of br (pub_Topic msg) sid) (pub_Options msg)"
  shows "Publish br pub msg pubID ids korder =
           (br,
            map (event_for br msg pubID) (filter (recipient br pub msg) ids)
            @ (if acknowledge msg then [(pub, Published (pub_Request msg) pubID)] else []),
            Returned)"
  using fanout_filtered [OF k c, of pub pubID ids]
  by (simp add: Publish_def Let_def template_def [symmetric] acknowledge_def)

lemma Publish_no_subscribers:
  "Publish br pub msg pubID [] korder =
     (br, if acknowledge msg then [(pub, Published (pub_Request msg) pubID)] else [], Returned)"
  by (simp add: Publish_def acknowledge_def)

text \<open>
  Whether or not the call panics, every EVENT it sends goes to a recipient: a target
  other than the publisher whose stored options pass the filter.
\<close>

lemma options_loop_Deliver_imp:
  "options_loop s p keys = Deliver \<Longrightarrow> k \<in> set keys \<Longrightarrow> s k = Some sv \<Longrightarrow> p k = Some pv
   \<Longrightarrow> sv = pv"
proof (induction keys)
  case Nil
  then show ?case by simp
next
  case (Cons x xs)
  show ?case
  proof (cases "x = k")
    case True
    with Cons.prems show ?thesis
      by (auto simp: go_neq_def split: option.splits bool.splits if_splits)
  next
    case False
    with Cons show ?thesis
      by (auto split: option.splits bool.splits)
  qed
qed

lemma fanout_sound:
  assumes k: "\<forall>sid. set (korder sid) = dom (pub_Options msg)"
    and m: "x \<in> set (fst (fanout br pub msg (template msg pubID) korder ids))"
  shows "\<exists>sid \<in> set ids. recipient br pub msg sid \<and> x = event_for br msg pubID sid"
  using m
proof (induction ids)
  case Nil
  then show ?case by simp
next
  case (Cons sid ids)
  let ?v = "options_loop (subOptions_of br (pub_Topic msg) sid) (pub_Options msg) (korder sid)"
  show ?case
  proof (cases "route_at br (pub_Topic msg) sid")
    case None
    then show ?thesis using Cons by (auto simp: route_at_def)
  next
    case (Some sub)
    show ?thesis
    proof (cases "sub = pub")
      case True
      then show ?thesis using Cons Some by (auto simp: route_at_def)
    next
      case False
      show ?thesis
      proof (cases ?v)
        case Deliver
        have p: "passes (subOptions_of br (pub_Topic msg) sid) (pub_Options msg)"
          unfolding passes_def
        proof (intro allI impI)
          fix key sv pv
          assume a: "subOptions_of br (pub_Topic msg) sid key = Some sv"
            and b: "pub_Options msg key = Some pv"
          from b k have "key \<in> set (korder sid)" by (auto simp: dom_def)
          from options_loop_Deliver_imp [OF Deliver this a b] show "sv = pv" .
        qed
        have r: "recipient br pub msg sid" using Some False p by (simp add: recipient_def)
        show ?thesis
          using Cons Some False Deliver r
          by (auto simp: route_at_def event_for_def Let_def)
      next
        case Skip
        then show ?thesis using Cons Some False by (auto simp: route_at_def)
      next
        case Panic
        then show ?thesis using Cons.prems Some False by (auto simp: route_at_def)
      qed
    qed
  qed
qed

lemma Publish_events_sound:
  assumes k: "\<forall>sid. set (korder sid) = dom (pub_Options msg)"
    and m: "(s, Event_m e) \<in> set (fst (snd (Publish br pub msg pubID ids korder)))"
  shows "\<exists>sid \<in> set ids. recipient br pub msg sid \<and> (s, Event_m e) = event_for br msg pubID sid"
proof -
  have "(s, Event_m e) \<in> set (fst (fanout br pub msg (template msg pubID) korder ids))"
    using m
    by (auto simp: Publish_def Let_def template_def split: status.splits if_splits)
  from fanout_sound [OF k this] show ?thesis .
qed

text \<open>
  When the order of the subscriber loop enumerates \<open>routes[msg.Topic]\<close>, the EVENTs sent
  are those of the recipients.
\<close>

lemma recipient_route_keys: "recipient br pub msg sid \<Longrightarrow> sid \<in> route_keys br (pub_Topic msg)"
  by (auto simp: recipient_def route_keys_def route_at_def split: option.splits)

lemma Publish_event_set:
  assumes "enumerates ids (route_keys br (pub_Topic msg))"
  shows "set (map (event_for br msg pubID) (filter (recipient br pub msg) ids)) =
           image (event_for br msg pubID) {sid. recipient br pub msg sid}"
  using assms recipient_route_keys [of br pub msg]
  by (auto simp: enumerates_def)

text \<open>The example: the stored options pass the filter, and the comparison panics.\<close>

lemma br_slice_recipient: "recipient br_slice 2 pub_slice 7"
  by (simp add: recipient_def route_at_def br_slice_def pub_slice_def sub_slice_def
        Subscribe_def Let_def NewDefaultBroker_def subOptions_of_def passes_def)

lemma br_slice_orders:
  "enumerates [7] (route_keys br_slice (pub_Topic pub_slice))"
  "enumerates [''x''] (dom (pub_Options pub_slice))"
  "enumerates [''acknowledge'', ''x''] (dom (pub_Options pub_slice_ack))"
  "enumerates [''x'', ''acknowledge''] (dom (pub_Options pub_slice_ack))"
  by (auto simp: enumerates_def route_keys_def br_slice_def sub_slice_def pub_slice_def
        pub_slice_ack_def Subscribe_def Let_def NewDefaultBroker_def)

section \<open>The claims about Publish\<close>

text \<open>
  C2. \<open>Publish\<close> is to send the EVENT to exactly the entries of \<open>routes[msg.topic]\<close>
  whose target is not the publisher and whose stored options agree with \<open>msg.options\<close>
  on every key present in both. Where no key present in both holds two slices or two
  maps, \<open>Publish\<close> does so (lemma \<open>Publish_filtered\<close>), and in every case an EVENT goes to such
  an entry only (lemma \<open>Publish_events_sound\<close>). At the input below the only
  key present in both holds the empty list on both sides, so the subscriber is to
  receive the EVENT (lemma \<open>br_slice_recipient\<close>); the comparison of the two slices
  panics, and nothing is sent. The orders of iteration are the only ones there are
  (lemma \<open>br_slice_orders\<close>).
\<close>

theorem Publish_panics_on_equal_slices:
  "Publish br_slice 2 pub_slice 100 [7] (\<lambda>sid. [''x'']) = (br_slice, [], Panicked)"
  by (simp add: Publish_def br_slice_def pub_slice_def sub_slice_def Subscribe_def Let_def
        NewDefaultBroker_def subOptions_of_def go_neq_def comparable_def)

text \<open>
  C7. PUBLISHED is to be sent to the publisher exactly when \<open>acknowledge\<close> is the boolean
  true, also with no subscriber, and after the EVENTs. Where \<open>Publish\<close> returns it does
  so (lemmas \<open>Publish_filtered\<close> and \<open>Publish_no_subscribers\<close>). At the input below
  \<open>acknowledge\<close> is true and the comparison of the option \<open>x\<close> panics in the subscriber
  loop, in either order of the two keys: PUBLISHED is not sent.
\<close>

theorem Publish_panic_sends_no_Published:
  "Publish br_slice 2 pub_slice_ack 100 [7] (\<lambda>sid. [''acknowledge'', ''x'']) =
     (br_slice, [], Panicked)
   \<and> Publish br_slice 2 pub_slice_ack 100 [7] (\<lambda>sid. [''x'', ''acknowledge'']) =
     (br_slice, [], Panicked)"
  by (simp add: Publish_def br_slice_def pub_slice_ack_def sub_slice_def Subscribe_def Let_def
        NewDefaultBroker_def subOptions_of_def go_neq_def comparable_def)

text \<open>
  C9. \<open>Publish\<close> leaves the broker as it was: the four maps after the call are the four
  maps before it, for every topic, publisher, option map and order of iteration, whether
  the call returns or panics. The source only reads the maps.
\<close>

theorem Publish_leaves_broker_unchanged:
  "fst (Publish br pub msg pubID ids korder) = br"
  by (simp add: Publish_def Let_def split: status.splits)

section \<open>The claims about the router\<close>

lemma closing_step: "closing r \<Longrightarrow> closing (router_step r x)"
  by (cases x)
     (simp_all add: Close_def RegisterRealm_def Accept_def GetLocalPeer_def
        AddSessionOpenCallback_def AddSessionCloseCallback_def split: option.splits)

lemma closing_run: "closing r \<Longrightarrow> closing (router_run r xs)"
  by (induction xs arbitrary: r) (simp_all add: closing_step)

lemma Close_loop_map:
  "set uris \<subseteq> dom (realms r) \<Longrightarrow>
   Close_loop r uris = map (\<lambda>u. RealmClose (the (realms r u))) uris"
  by (induction uris) auto

lemma ran_image: "ran m = image (\<lambda>k. the (m k)) (dom m)"
  by (auto simp: ran_def dom_def image_iff) (metis option.sel)

lemma router_two_realms: "realms router_two = [''a'' \<mapsto> 1, ''b'' \<mapsto> 2]"
  by (simp add: router_two_def RegisterRealm_def NewDefaultRouter_def)

lemma router_two_closing: "\<not> closing router_two"
  by (simp add: router_two_def RegisterRealm_def NewDefaultRouter_def)

text \<open>The other error paths of \<open>Accept\<close> send ABORT and close the peer.\<close>

lemma Accept_sibling_paths_close:
  "snd (snd (Accept (r\<lparr>closing := True\<rparr>) client received handleAuth newID sent)) =
     [PeerSend client (Abort ErrSystemShutdown Map.empty), PeerClose client]"
  "snd (snd (Accept (r\<lparr>closing := False\<rparr>) client (Inr (Other t)) handleAuth newID sent)) =
     [PeerSend client (Abort ''wamp.error.protocol_violation'' Map.empty), PeerClose client]"
  "realms r uri = None \<Longrightarrow>
   snd (snd (Accept (r\<lparr>closing := False\<rparr>) client (Inr (Hello uri d)) handleAuth newID sent)) =
     [PeerSend client (Abort ErrNoSuchRealm Map.empty), PeerClose client]"
  "realms r uri = Some realm \<Longrightarrow> handleAuth realm client d = Inl e \<Longrightarrow>
   snd (snd (Accept (r\<lparr>closing := False\<rparr>) client (Inr (Hello uri d)) handleAuth newID sent)) =
     [PeerSend client (Abort ErrAuthorizationFailed [''error'' \<mapsto> VString e]), PeerClose client]"
  by (simp_all add: Accept_def)

text \<open>
  C3. \<open>Accept\<close> on a router that is not closing, when receiving the first message fails
  (a timeout is such an error): the error is returned, no session is started and no
  message is sent, but the peer is not closed either; the call has no effect at all.
\<close>

theorem Accept_receive_error_leaves_peer_open:
  "Accept (r\<lparr>closing := False\<rparr>) client (Inl err) handleAuth newID sent =
     (r\<lparr>closing := False\<rparr>, Some (PeerError err), [])"
  by (simp add: Accept_def)

text \<open>
  C8. The first \<open>Close\<close> of a router sets \<open>closing\<close>, closes the realm of every
  registered URI once, in the order of the iteration, and returns no error. A second
  \<open>Close\<close> returns the error \<open>already closed\<close>, closes no realm and changes nothing.
  After the first \<open>Close\<close>, \<open>closing\<close> stays set through every sequence of router
  operations.
\<close>

theorem Close_guard:
  assumes n: "\<not> closing r" and e: "enumerates uris (dom (realms r))"
  shows "Close r uris =
           (r\<lparr>closing := True\<rparr>, None, map (\<lambda>u. RealmClose (the (realms r u))) uris)
       \<and> set (snd (snd (Close r uris))) = image RealmClose (ran (realms r))
       \<and> Close (fst (Close r uris)) uris' =
           (fst (Close r uris), Some (Errorf ''already closed''), [])
       \<and> (\<forall>ops. closing (router_run (fst (Close r uris)) ops))"
proof -
  have s: "set uris = dom (realms r)" using e by (simp add: enumerates_def)
  have 1: "Close r uris =
      (r\<lparr>closing := True\<rparr>, None, map (\<lambda>u. RealmClose (the (realms r u))) uris)"
    using n s Close_loop_map [of uris "r\<lparr>closing := True\<rparr>"]
    by (simp add: Close_def Let_def)
  have 2: "set (snd (snd (Close r uris))) = image RealmClose (ran (realms r))"
    using s by (simp add: 1 ran_image image_image)
  have 3: "Close (fst (Close r uris)) uris' =
      (fst (Close r uris), Some (Errorf ''already closed''), [])"
    by (simp add: 1) (simp add: Close_def)
  have 4: "closing (router_run (fst (Close r uris)) ops)" for ops
    by (rule closing_run) (simp add: 1)
  from 1 2 3 4 show ?thesis by blast
qed

theorem Close_guard_witness:
  "\<not> closing router_two \<and> enumerates [''a'', ''b''] (dom (realms router_two)) \<and>
   Close router_two [''a'', ''b''] =
     (router_two\<lparr>closing := True\<rparr>, None, [RealmClose 1, RealmClose 2]) \<and>
   Close (fst (Close router_two [''a'', ''b''])) [''b'', ''a''] =
     (router_two\<lparr>closing := True\<rparr>, Some (Errorf ''already closed''), []) \<and>
   (\<forall>ops. closing (router_run (fst (Close router_two [''a'', ''b''])) ops))"
proof -
  have e: "enumerates [''a'', ''b''] (dom (realms router_two))"
    by (auto simp: enumerates_def router_two_realms)
  note g = Close_guard [OF router_two_closing e, of "[''b'', ''a'']"]
  have c: "Close router_two [''a'', ''b''] =
      (router_two\<lparr>closing := True\<rparr>, None, [RealmClose 1, RealmClose 2])"
    using g by (simp add: router_two_realms)
  have f: "fst (Close router_two [''a'', ''b'']) = router_two\<lparr>closing := True\<rparr>"
    by (simp add: c)
  show ?thesis
    using g router_two_closing e unfolding f
    by (simp add: router_two_realms)
qed

end
